theory Spec2Isabelle
  imports Complex_Main
begin

section \<open>Numeric model\<close>

text \<open>
  The repository is a NumPy library.  Its \<^verbatim>\<open>float64\<close> values are modelled by
  \<^typ>\<open>real\<close> and its \<^verbatim>\<open>complex128\<close> values by \<^typ>\<open>complex\<close>: every
  arithmetic operation is the exact one, so rounding, overflow and underflow are
  outside this development.  A one-dimensional array is a list, a \<open>(J,2)\<close> position
  matrix is a list of pairs, a \<open>(2,P)\<close> direction matrix is a pair of rows, and any
  other two-dimensional array is a list of rows.  Exceptions are values of
  \<open>py_error\<close>; a function that can raise returns \<open>py_error + 'a\<close>.
\<close>

datatype py_error = ValueError | IndexError

text \<open>
  NumPy's broadcasting rule for two one-dimensional operands: equal lengths combine
  elementwise, a length-one operand is stretched, anything else raises.
\<close>

definition broadcast2 :: "('a \<Rightarrow> 'b \<Rightarrow> 'c) \<Rightarrow> 'a list \<Rightarrow> 'b list \<Rightarrow> py_error + 'c list" where
  "broadcast2 f xs ys =
     (if length xs = length ys then Inr (map2 f xs ys)
      else if length ys = 1 then Inr (map (\<lambda>x. f x (hd ys)) xs)
      else if length xs = 1 then Inr (map (f (hd xs)) ys)
      else Inl ValueError)"

text \<open>\<^verbatim>\<open>np.stack((l,m))\<close>: the two rows must have the same shape.\<close>

definition np_stack :: "'a list \<Rightarrow> 'a list \<Rightarrow> py_error + ('a list \<times> 'a list)" where
  "np_stack l m = (if length l = length m then Inr (l, m) else Inl ValueError)"

text \<open>\<^verbatim>\<open>S - S0\<close> on two \<open>(2,_)\<close> matrices, row by row.\<close>

definition sub2 :: "real list \<times> real list \<Rightarrow> real list \<times> real list \<Rightarrow> py_error + (real list \<times> real list)" where
  "sub2 S S0 =
     (case broadcast2 (-) (fst S) (fst S0) of
        Inl e \<Rightarrow> Inl e
      | Inr r0 \<Rightarrow>
          (case broadcast2 (-) (snd S) (snd S0) of
             Inl e \<Rightarrow> Inl e
           | Inr r1 \<Rightarrow> Inr (r0, r1)))"

text \<open>
  \<^verbatim>\<open>2j*np.pi*positions\<close>: Python evaluates \<^verbatim>\<open>*\<close> and \<^verbatim>\<open>@\<close> left to right, so the
  positions are scaled by the complex constant before the matrix product.
\<close>

definition scaled_positions :: "(real \<times> real) list \<Rightarrow> (complex \<times> complex) list" where
  "scaled_positions positions =
     map (\<lambda>(x, y). (2 * \<i> * complex_of_real pi * complex_of_real x,
                      2 * \<i> * complex_of_real pi * complex_of_real y)) positions"

text \<open>The matrix product of a \<open>(J,2)\<close> complex matrix with a \<open>(2,P)\<close> real matrix.\<close>

definition matmul2 :: "(complex \<times> complex) list \<Rightarrow> real list \<times> real list \<Rightarrow> complex list list" where
  "matmul2 A B =
     map (\<lambda>(a, b). map2 (\<lambda>u v. a * complex_of_real u + b * complex_of_real v) (fst B) (snd B)) A"

text \<open>\<^verbatim>\<open>np.sum(M, 0)\<close> on a matrix with \<open>P\<close> columns: the column sums.\<close>

definition sum_axis0 :: "nat \<Rightarrow> complex list list \<Rightarrow> complex list" where
  "sum_axis0 P M = map (\<lambda>p. sum_list (map (\<lambda>row. row ! p) M)) [0..<P]"

section \<open>Array manifold and array factor\<close>

text \<open>\<^verbatim>\<open>array_manifold\<close>: \<^verbatim>\<open>np.exp(2j*np.pi*positions@(np.stack((l,m))))\<close>.\<close>

definition array_manifold :: "real list \<Rightarrow> real list \<Rightarrow> (real \<times> real) list \<Rightarrow> py_error + complex list list" where
  "array_manifold l m positions =
     (case np_stack l m of
        Inl e \<Rightarrow> Inl e
      | Inr S \<Rightarrow> Inr (map (map exp) (matmul2 (scaled_positions positions) S)))"

text \<open>
  The line every array-factor variant ends with:
  \<^verbatim>\<open>np.sum(np.exp(2j*np.pi*positions@(S-S0)),0)\<close>.
\<close>

definition phase_sum :: "(real \<times> real) list \<Rightarrow> real list \<times> real list \<Rightarrow> real list \<times> real list \<Rightarrow> py_error + complex list" where
  "phase_sum positions S S0 =
     (case sub2 S S0 of
        Inl e \<Rightarrow> Inl e
      | Inr D \<Rightarrow>
          Inr (sum_axis0 (length (fst D))
                 (map (map exp) (matmul2 (scaled_positions positions) D))))"

text \<open>
  \<^verbatim>\<open>array_factor_lm\<close>: the steering cosines are scalars, which
  \<^verbatim>\<open>np.atleast_1d\<close> turns into arrays of length one.
\<close>

definition array_factor_lm :: "real list \<Rightarrow> real list \<Rightarrow> real \<Rightarrow> real \<Rightarrow> (real \<times> real) list \<Rightarrow> py_error + complex list" where
  "array_factor_lm l m l0 m0 positions =
     (case np_stack l m of
        Inl e \<Rightarrow> Inl e
      | Inr S \<Rightarrow>
          (case np_stack [l0] [m0] of
             Inl e \<Rightarrow> Inl e
           | Inr S0 \<Rightarrow> phase_sum positions S S0))"

text \<open>
  Modelled from the spec: \<^verbatim>\<open>healpy.ang2vec\<close> is a library function outside the
  repository.  The spec gives its projection, "the standard spherical-to-Cartesian
  mapping (l=sin \<theta>\<sqdot>cos \<phi>, m=sin \<theta>\<sqdot>sin \<phi>)"; the third component is \<open>cos \<theta>\<close>.
  It is applied to two flattened arrays of the same length; other shapes, and any
  range validation the library performs on its arguments, are outside the model.
\<close>

definition ang2vec :: "real list \<Rightarrow> real list \<Rightarrow> py_error + (real \<times> real \<times> real) list" where
  "ang2vec theta phi =
     (if length theta = length phi
      then Inr (map2 (\<lambda>t p. (sin t * cos p, sin t * sin p, cos t)) theta phi)
      else Inl ValueError)"

text \<open>\<^verbatim>\<open>V[:,:2].T\<close>: the first two columns of a \<open>(P,3)\<close> matrix, as two rows.\<close>

definition first_two_T :: "(real \<times> real \<times> real) list \<Rightarrow> real list \<times> real list" where
  "first_two_T V = (map fst V, map (\<lambda>v. fst (snd v)) V)"

text \<open>
  \<^verbatim>\<open>array_factor_tp\<close>.  The steering angles are scalars made arrays of length one by
  \<^verbatim>\<open>np.atleast_1d\<close>.
\<close>

definition array_factor_tp :: "real list \<Rightarrow> real list \<Rightarrow> real \<Rightarrow> real \<Rightarrow> (real \<times> real) list \<Rightarrow> py_error + complex list" where
  "array_factor_tp theta phi theta0 phi0 positions =
     (case ang2vec theta phi of
        Inl e \<Rightarrow> Inl e
      | Inr V \<Rightarrow>
          (case ang2vec [theta0] [phi0] of
             Inl e \<Rightarrow> Inl e
           | Inr V0 \<Rightarrow> phase_sum positions (first_two_T V) (first_two_T V0)))"

text \<open>
  \<^verbatim>\<open>healpy.pix2vec\<close> is a library function outside the repository.  It is a parameter
  \<open>p2v\<close> of the model, from the resolution and a pixel index to the unit vector of
  that pixel; \<open>pix2vec\<close> applies it to an array of pixels and returns the three
  coordinate arrays.
\<close>

definition pix2vec :: "(int \<Rightarrow> int \<Rightarrow> real \<times> real \<times> real) \<Rightarrow> int \<Rightarrow> int list \<Rightarrow> real list \<times> real list \<times> real list" where
  "pix2vec p2v nside pixels =
     (map (\<lambda>q. fst (p2v nside q)) pixels,
      map (\<lambda>q. fst (snd (p2v nside q))) pixels,
      map (\<lambda>q. snd (snd (p2v nside q))) pixels)"

text \<open>
  \<^verbatim>\<open>array_factor_hp\<close>.  The argument \<open>scan_pixel\<close> is the array
  \<^verbatim>\<open>np.atleast_1d(scan_pixel)\<close>: a scalar pixel index is the one-element list.
\<close>

definition array_factor_hp :: "(int \<Rightarrow> int \<Rightarrow> real \<times> real \<times> real) \<Rightarrow> int \<Rightarrow> int list \<Rightarrow> int list \<Rightarrow> (real \<times> real) list \<Rightarrow> py_error + complex list" where
  "array_factor_hp p2v nside source_pixels scan_pixel positions =
     (case pix2vec p2v nside source_pixels of
        (sx, sy, _) \<Rightarrow>
          (case np_stack sx sy of
             Inl e \<Rightarrow> Inl e
           | Inr S \<Rightarrow>
               (case pix2vec p2v nside scan_pixel of
                  (s0x, s0y, _) \<Rightarrow>
                    (case np_stack s0x s0y of
                       Inl e \<Rightarrow> Inl e
                     | Inr S0 \<Rightarrow> phase_sum positions S S0))))"

text \<open>\<^verbatim>\<open>np.tile(xs, n)\<close>, \<^verbatim>\<open>np.repeat(xs, n)\<close> and \<^verbatim>\<open>reshape((r, c))\<close> on flat arrays.\<close>

definition np_tile :: "'a list \<Rightarrow> nat \<Rightarrow> 'a list" where
  "np_tile xs n = concat (replicate n xs)"

definition np_repeat :: "'a list \<Rightarrow> nat \<Rightarrow> 'a list" where
  "np_repeat xs n = concat (map (replicate n) xs)"

definition reshape2 :: "nat \<Rightarrow> nat \<Rightarrow> 'a list \<Rightarrow> py_error + 'a list list" where
  "reshape2 r c xs =
     (if length xs = r * c then Inr (map (\<lambda>i. take c (drop (i * c) xs)) [0..<r])
      else Inl ValueError)"

text \<open>
  \<^verbatim>\<open>array_factor_hpmatrix\<close>: the source matrix is tiled once per scan pixel, every
  scan direction is repeated once per source pixel, and the flat result is reshaped.
\<close>

definition array_factor_hpmatrix :: "(int \<Rightarrow> int \<Rightarrow> real \<times> real \<times> real) \<Rightarrow> int \<Rightarrow> int list \<Rightarrow> int list \<Rightarrow> (real \<times> real) list \<Rightarrow> py_error + complex list list" where
  "array_factor_hpmatrix p2v nside source_pixels scan_pixels positions =
     (case pix2vec p2v nside source_pixels of
        (sx, sy, _) \<Rightarrow>
          (case np_stack sx sy of
             Inl e \<Rightarrow> Inl e
           | Inr S \<Rightarrow>
               (case pix2vec p2v nside scan_pixels of
                  (s0x, s0y, _) \<Rightarrow>
                    (case np_stack s0x s0y of
                       Inl e \<Rightarrow> Inl e
                     | Inr S0 \<Rightarrow>
                         (let nsource = length source_pixels;
                              nscan = length scan_pixels;
                              S' = (np_tile (fst S) nscan, np_tile (snd S) nscan);
                              S0' = (np_repeat (fst S0) nsource, np_repeat (snd S0) nsource)
                          in case phase_sum positions S' S0' of
                               Inl e \<Rightarrow> Inl e
                             | Inr A \<Rightarrow> reshape2 nscan nsource A)))))"

section \<open>Element geometries\<close>

text \<open>\<^verbatim>\<open>np.arange(n)\<close> for a count \<open>n\<close>, read as floats.\<close>

definition np_arange :: "nat \<Rightarrow> real list" where
  "np_arange n = map real [0..<n]"

text \<open>
  \<^verbatim>\<open>upa_positions\<close>.  The counts are numbers of elements, hence naturals; both
  coordinate arrays have \<open>Nx * Ny\<close> entries, so \<^verbatim>\<open>np.stack((px,py),1)\<close> pairs them.
\<close>

definition upa_positions :: "nat \<Rightarrow> nat \<Rightarrow> real \<Rightarrow> real \<Rightarrow> (real \<times> real) list" where
  "upa_positions Nx Ny dx dy =
     (let px = map (\<lambda>x. x * dx) (np_tile (np_arange Nx) Ny);
          py = map (\<lambda>y. y * dy) (np_repeat (np_arange Ny) Nx)
      in zip px py)"

text \<open>\<^verbatim>\<open>np.round(x, decimals=0).astype(int)\<close>: NumPy rounds halves to the even integer.\<close>

definition np_round :: "real \<Rightarrow> int" where
  "np_round x =
     (let f = \<lfloor>x\<rfloor>; r = x - of_int f
      in if r < 1 / 2 then f else if 1 / 2 < r then f + 1 else if even f then f else f + 1)"

text \<open>
  \<^verbatim>\<open>hex_positions\<close>.  For \<open>Nx = 0\<close> the source hands the negative counts \<open>-1\<close> to
  \<^verbatim>\<open>np.tile\<close> and \<^verbatim>\<open>np.repeat\<close>; that call is outside the model and is \<open>None\<close>.
  For \<open>Nx \<ge> 1\<close> the count \<open>Ny\<close> is at least one (lemma \<open>hex_ny_pos\<close> below), so
  the conversions to \<open>nat\<close> lose nothing.
\<close>

definition hex_positions :: "nat \<Rightarrow> real \<Rightarrow> (real \<times> real) list option" where
  "hex_positions Nx dx =
     (if Nx = 0 then None
      else
        (let dy = dx * sqrt 3;
             Ny = np_round (real Nx / sqrt 3);
             p1 = upa_positions Nx (nat Ny) dx dy;
             p2 = upa_positions (Nx - 1) (nat (Ny - 1)) dx dy;
             p2' = map (\<lambda>(x, y). (x + dx / 2, y + dy / 2)) p2
         in Some (p1 @ p2')))"

text \<open>
  The spec's own words for the rectangular lattice: "row-major grid, x varies
  fastest; position(i,j) = (i\<sqdot>dx, j\<sqdot>dy)".
\<close>

definition rectangular_lattice :: "nat \<Rightarrow> nat \<Rightarrow> real \<Rightarrow> real \<Rightarrow> (real \<times> real) list" where
  "rectangular_lattice nx ny dx dy =
     concat (map (\<lambda>j. map (\<lambda>i. (real i * dx, real j * dy)) [0..<nx]) [0..<ny])"

section \<open>Directivity\<close>

text \<open>
  A float division whose denominator is zero returns a non-finite value (\<^verbatim>\<open>nan\<close> or
  \<^verbatim>\<open>inf\<close>, with a warning) and raises nothing; the reals have no such value, so the
  result of a division is an option and \<open>None\<close> is the non-finite result.
\<close>

definition np_divide :: "'a::field \<Rightarrow> 'a \<Rightarrow> 'a option" where
  "np_divide x y = (if y = 0 then None else Some (x / y))"


text \<open>
  Modelled from the spec: \<^verbatim>\<open>np.sinc\<close> is a library function outside the repository;
  the spec gives "sinc(x) = sin(\<pi>x)/(\<pi>x) (sinc(0)=1)".
\<close>

definition np_sinc :: "real \<Rightarrow> real" where
  "np_sinc x = (if x = 0 then 1 else sin (pi * x) / (pi * x))"

text \<open>\<^verbatim>\<open>np.kron(a, b)\<close> on flat arrays, \<^verbatim>\<open>np.zeros((N,N))\<close> and \<^verbatim>\<open>np.diag(v, k)\<close>.\<close>

definition np_kron :: "'a::times list \<Rightarrow> 'a list \<Rightarrow> 'a list" where
  "np_kron a b = concat (map (\<lambda>x. map (\<lambda>y. x * y) b) a)"

definition np_zeros :: "nat \<Rightarrow> real list list" where
  "np_zeros N = replicate N (replicate N 0)"

definition np_diag :: "real list \<Rightarrow> int \<Rightarrow> real list list" where
  "np_diag v k =
     (let n = length v + nat \<bar>k\<bar>
      in map (\<lambda>r. map (\<lambda>c. if int c - int r = k then v ! (if 0 \<le> k then r else c) else 0)
                     [0..<n]) [0..<n])"

text \<open>The sum of two matrices of the same shape.\<close>

definition mat_add :: "real list list \<Rightarrow> real list list \<Rightarrow> real list list" where
  "mat_add A B = map2 (map2 (+)) A B"

text \<open>
  The loop of \<^verbatim>\<open>linear_directivity\<close> that builds \<^verbatim>\<open>diff_matrix\<close>: step \<open>i\<close> adds
  \<open>-i\<close> on the \<open>i\<close>-th diagonal above the main one and \<open>i\<close> on the \<open>i\<close>-th below.
\<close>

definition diff_step :: "nat \<Rightarrow> nat \<Rightarrow> real list list \<Rightarrow> real list list" where
  "diff_step N i diff_matrix =
     (let diag = map (\<lambda>x. x * real i) (replicate (N - i) 1)
      in mat_add (mat_add diff_matrix (np_diag (map uminus diag) (int i)))
                 (np_diag diag (- int i)))"

definition diff_matrix :: "nat \<Rightarrow> real list list" where
  "diff_matrix N = fold (diff_step N) [1..<N] (np_zeros N)"

text \<open>
  \<^verbatim>\<open>linear_directivity\<close>, for real or complex weights at once: \<open>norm\<close> is
  \<^verbatim>\<open>np.abs\<close>, and \<open>of_real\<close> is the promotion of a float to the weights' type.
\<close>

definition linear_directivity :: "'a::real_normed_field list \<Rightarrow> real \<Rightarrow> py_error + 'a option" where
  "linear_directivity a d =
     (let N = length a;
          D_num = (sum_list (map norm a)) ^ 2
      in case reshape2 N N (np_kron a a) of
           Inl e \<Rightarrow> Inl e
         | Inr coeff_products \<Rightarrow>
             (let sinc_args = map (map (\<lambda>x. 2 * d * x)) (diff_matrix N);
                  D_den = sum_list (concat
                            (map2 (map2 (\<lambda>c s. c * of_real (np_sinc s))) coeff_products sinc_args))
              in Inr (np_divide (of_real D_num) D_den)))"

text \<open>
  The spec's own words for the analytical directivity:
  "D = |\<Sigma> w_i|^2 / \<Sigma>_{i,j} w_i\<sqdot>w_j\<sqdot>sinc(2d(i-j))".
\<close>

definition spec_linear_directivity :: "'a::real_normed_field list \<Rightarrow> real \<Rightarrow> 'a option" where
  "spec_linear_directivity w d =
     np_divide (of_real ((norm (sum_list w)) ^ 2))
       (sum_list (map (\<lambda>i. sum_list (map (\<lambda>j. w ! i * w ! j *
            of_real (np_sinc (2 * d * (real i - real j)))) [0..<length w])) [0..<length w]))"

text \<open>
  \<^verbatim>\<open>PowerPattern*np.sin(theta)\<close>: every row of the pattern is multiplied with the
  vector under the broadcasting rule.  (A pattern without rows is the empty list,
  whose column count is not recorded.)
\<close>

fun mul_rows :: "real list list \<Rightarrow> real list \<Rightarrow> py_error + real list list" where
  "mul_rows [] v = Inr []"
| "mul_rows (r # rs) v =
     (case broadcast2 (*) r v of
        Inl e \<Rightarrow> Inl e
      | Inr w \<Rightarrow>
          (case mul_rows rs v of
             Inl e \<Rightarrow> Inl e
           | Inr ws \<Rightarrow> Inr (w # ws)))"

text \<open>
  \<^verbatim>\<open>radiated_power\<close>.  \<^verbatim>\<open>theta[1]\<close> and \<^verbatim>\<open>phi[1]\<close> raise \<^verbatim>\<open>IndexError\<close> on an array
  with fewer than two entries.
\<close>

definition radiated_power :: "real list list \<Rightarrow> real list \<Rightarrow> real list \<Rightarrow> py_error + real" where
  "radiated_power PowerPattern theta phi =
     (if length theta < 2 then Inl IndexError
      else
        (let dt = theta ! 1 - theta ! 0
         in if length phi < 2 then Inl IndexError
            else
              (let dp = phi ! 1 - phi ! 0
               in case mul_rows PowerPattern (map sin theta) of
                    Inl e \<Rightarrow> Inl e
                  | Inr W \<Rightarrow> Inr (sum_list (map (\<lambda>row. sum_list row * dt) W) * dp))))"

text \<open>\<^verbatim>\<open>np.max\<close> of all entries; it raises \<^verbatim>\<open>ValueError\<close> on an array without entries.\<close>

definition np_max :: "real list list \<Rightarrow> py_error + real" where
  "np_max M = (case concat M of [] \<Rightarrow> Inl ValueError | x # xs \<Rightarrow> Inr (fold max xs x))"

text \<open>\<^verbatim>\<open>numerical_directivity\<close>: the maximum is taken before the power is integrated.\<close>

definition numerical_directivity :: "real list list \<Rightarrow> real list \<Rightarrow> real list \<Rightarrow> py_error + real option" where
  "numerical_directivity PowerPattern theta phi =
     (case np_max PowerPattern of
        Inl e \<Rightarrow> Inl e
      | Inr mx \<Rightarrow>
          (let D_num = 4 * pi * mx
           in case radiated_power PowerPattern theta phi of
                Inl e \<Rightarrow> Inl e
              | Inr D_den \<Rightarrow> Inr (np_divide D_num D_den)))"

section \<open>Auxiliary notions of the proofs\<close>

text \<open>
  The coherent sum of the spec, "AF = \<Sigma>_j exp(i\<sqdot>2\<pi> \<sqdot> position_j \<sqdot> (S_source - S_steer))",
  at the difference vector \<open>(a, b)\<close>; \<open>cis t\<close> is \<open>exp (\<i> * t)\<close>.
\<close>

definition af_entry :: "(real \<times> real) list \<Rightarrow> real \<Rightarrow> real \<Rightarrow> complex" where
  "af_entry positions a b = sum_list (map (\<lambda>(x, y). cis (2 * pi * (x * a + y * b))) positions)"

text \<open>The \<open>N\<close> by \<open>N\<close> matrix whose entry \<open>(r, c)\<close> is \<open>f r c\<close>.\<close>

definition tab :: "nat \<Rightarrow> (nat \<Rightarrow> nat \<Rightarrow> 'b) \<Rightarrow> 'b list list" where
  "tab N f = map (\<lambda>r. map (\<lambda>c. f r c) [0..<N]) [0..<N]"

section \<open>The array manifold and the array factor: proofs\<close>

lemma phase_exponent:
  "2 * \<i> * complex_of_real pi * complex_of_real x * complex_of_real u
   + 2 * \<i> * complex_of_real pi * complex_of_real y * complex_of_real v
   = \<i> * complex_of_real (2 * pi * (x * u + y * v))"
  by (simp add: algebra_simps)

lemma exp_phase:
  "exp (2 * \<i> * complex_of_real pi * complex_of_real x * complex_of_real u
   + 2 * \<i> * complex_of_real pi * complex_of_real y * complex_of_real v)
   = cis (2 * pi * (x * u + y * v))"
  by (simp only: phase_exponent cis_conv_exp)

lemma exp_matmul2:
  "map (map exp) (matmul2 (scaled_positions positions) (u, v))
   = map (\<lambda>(x, y). map2 (\<lambda>a b. cis (2 * pi * (x * a + y * b))) u v) positions"
  by (simp add: matmul2_def scaled_positions_def comp_def split_def exp_phase)

lemma sum_axis0_cis:
  assumes "length u = length v"
  shows "sum_axis0 (length u) (map (\<lambda>(x, y). map2 (\<lambda>a b. cis (2 * pi * (x * a + y * b))) u v) positions)
    = map2 (af_entry positions) u v"
proof (rule nth_equalityI)
  show "length (sum_axis0 (length u) (map (\<lambda>(x, y). map2 (\<lambda>a b. cis (2 * pi * (x * a + y * b))) u v) positions))
      = length (map2 (af_entry positions) u v)"
    using assms by (simp add: sum_axis0_def)
next
  fix p assume "p < length (sum_axis0 (length u) (map (\<lambda>(x, y). map2 (\<lambda>a b. cis (2 * pi * (x * a + y * b))) u v) positions))"
  then have p: "p < length u" by (simp add: sum_axis0_def)
  then have pv: "p < length v" using assms by simp
  have "sum_axis0 (length u) (map (\<lambda>(x, y). map2 (\<lambda>a b. cis (2 * pi * (x * a + y * b))) u v) positions) ! p
      = sum_list (map (\<lambda>(x, y). cis (2 * pi * (x * (u ! p) + y * (v ! p)))) positions)"
    using p pv by (simp add: sum_axis0_def comp_def split_def)
  also have "\<dots> = map2 (af_entry positions) u v ! p"
    using p pv by (simp add: af_entry_def)
  finally show "sum_axis0 (length u) (map (\<lambda>(x, y). map2 (\<lambda>a b. cis (2 * pi * (x * a + y * b))) u v) positions) ! p
      = map2 (af_entry positions) u v ! p" .
qed

lemma phase_sum_eq:
  assumes "sub2 S S0 = Inr (u, v)" and "length u = length v"
  shows "phase_sum positions S S0 = Inr (map2 (af_entry positions) u v)"
proof -
  have "phase_sum positions S S0 = Inr (sum_axis0 (length u)
      (map (\<lambda>(x, y). map2 (\<lambda>a b. cis (2 * pi * (x * a + y * b))) u v) positions))"
    using assms(1) by (simp add: phase_sum_def exp_matmul2)
  then show ?thesis by (simp only: sum_axis0_cis[OF assms(2)])
qed

lemma sub2_single:
  assumes "length l = length m"
  shows "sub2 (l, m) ([l0], [m0]) = Inr (map (\<lambda>x. x - l0) l, map (\<lambda>y. y - m0) m)"
proof (cases "length l = 1")
  case True
  then obtain a where l: "l = [a]" by (cases l) auto
  from True assms obtain b where m: "m = [b]" by (cases m) auto
  show ?thesis by (simp add: l m sub2_def broadcast2_def)
next
  case False
  then show ?thesis using assms by (simp add: sub2_def broadcast2_def)
qed

lemma phase_sum_single:
  assumes "length l = length m"
  shows "phase_sum positions (l, m) ([l0], [m0])
     = Inr (map2 (\<lambda>a b. af_entry positions (a - l0) (b - m0)) l m)"
proof -
  have "phase_sum positions (l, m) ([l0], [m0])
      = Inr (map2 (af_entry positions) (map (\<lambda>x. x - l0) l) (map (\<lambda>y. y - m0) m))"
    by (rule phase_sum_eq[OF sub2_single[OF assms]]) (simp add: assms)
  then show ?thesis by (simp add: zip_map_map split_def comp_def)
qed

lemma array_factor_lm_eq:
  assumes "length l = length m"
  shows "array_factor_lm l m l0 m0 positions
     = Inr (map2 (\<lambda>a b. af_entry positions (a - l0) (b - m0)) l m)"
  using assms phase_sum_single[OF assms, of positions l0 m0]
  by (simp add: array_factor_lm_def np_stack_def)

lemma norm_sum_list_le:
  fixes f :: "'a \<Rightarrow> complex"
  assumes "\<And>x. norm (f x) \<le> 1"
  shows "norm (sum_list (map f xs)) \<le> real (length xs)"
proof (induction xs)
  case Nil
  show ?case by simp
next
  case (Cons x xs)
  have "norm (f x + sum_list (map f xs)) \<le> norm (f x) + norm (sum_list (map f xs))"
    by (rule norm_triangle_ineq)
  also have "\<dots> \<le> 1 + real (length xs)"
    using assms[of x] Cons.IH by linarith
  finally show ?case by simp
qed

lemma norm_af_entry: "norm (af_entry positions a b) \<le> real (length positions)"
  unfolding af_entry_def by (rule norm_sum_list_le) (simp add: split_def)

lemma array_factor_tp_lm:
  assumes "length theta = length phi"
  shows "array_factor_tp theta phi theta0 phi0 positions =
         array_factor_lm (map2 (\<lambda>t p. sin t * cos p) theta phi)
                         (map2 (\<lambda>t p. sin t * sin p) theta phi)
                         (sin theta0 * cos phi0) (sin theta0 * sin phi0) positions"
  using assms
  by (simp add: array_factor_tp_def array_factor_lm_def ang2vec_def np_stack_def
      first_two_T_def comp_def split_def)


lemma sum_list_const: "sum_list (map (\<lambda>x. c) xs) = of_nat (length xs) * (c::complex)"
  by (induction xs) (simp_all add: algebra_simps)

text \<open>
  C3.  When the only source direction is the steering direction itself, the array
  factor is the single value \<open>J\<close>, the number of elements, with no imaginary part.
\<close>

theorem array_factor_lm_in_phase:
  "array_factor_lm [l0] [m0] l0 m0 positions = Inr [complex_of_real (real (length positions))]
   \<and> Im (complex_of_real (real (length positions))) = 0"
  by (simp add: array_factor_lm_def np_stack_def phase_sum_def sub2_def broadcast2_def
      sum_axis0_def matmul2_def scaled_positions_def comp_def split_def sum_list_const)

text \<open>
  C4.  For direction cosines of equal length \<open>P\<close> and \<open>J\<close> positions, the manifold is
  a \<open>J\<close> by \<open>P\<close> matrix whose entry \<open>(j,p)\<close> is
  \<open>exp (\<i> * 2 * pi * (positions[j,0] * l[p] + positions[j,1] * m[p]))\<close>, of modulus one.
\<close>

theorem array_manifold_entries:
  assumes "length l = length m"
  shows "\<exists>A. array_manifold l m positions = Inr A \<and> length A = length positions \<and>
     (\<forall>j < length positions. length (A ! j) = length l \<and>
        (\<forall>p < length l.
            A ! j ! p = exp (\<i> * complex_of_real
                (2 * pi * (fst (positions ! j) * l ! p + snd (positions ! j) * m ! p)))
          \<and> norm (A ! j ! p) = 1))"
  using assms
  by (simp add: array_manifold_def np_stack_def exp_matmul2 split_def cis_conv_exp)

theorem array_manifold_entries_witness:
  "length [1 / 2 :: real] = length [0 :: real] \<and>
   (\<exists>A. array_manifold [1 / 2] [0] [(1, 0), (0, 5)] = Inr A \<and> length A = 2 \<and>
        length (A ! 0) = 1 \<and> A ! 0 ! 0 = - 1 \<and> norm (A ! 0 ! 0) = 1 \<and>
        length (A ! 1) = 1 \<and> A ! 1 ! 0 = 1 \<and> norm (A ! 1 ! 0) = 1)"
proof -
  have h: "length [1 / 2 :: real] = length [0 :: real]" by simp
  from array_manifold_entries[OF h, of "[(1, 0), (0, 5)]"]
  obtain A where A: "array_manifold [1 / 2] [0] [(1, 0), (0, 5)] = Inr A"
      "length A = 2"
      "\<forall>j < 2. length (A ! j) = 1 \<and>
         (\<forall>p < 1. A ! j ! p = exp (\<i> * complex_of_real
                (2 * pi * (fst ([(1 :: real, 0 :: real), (0, 5)] ! j) * [1 / 2] ! p
                   + snd ([(1 :: real, 0 :: real), (0, 5)] ! j) * [0] ! p)))
            \<and> norm (A ! j ! p) = 1)"
    by auto
  from A(3) have "length (A ! 0) = 1" "A ! 0 ! 0 = - 1" "norm (A ! 0 ! 0) = 1"
    by (simp_all add: exp_pi_i')
  moreover from A(3) have "length (A ! 1) = 1" "A ! 1 ! 0 = 1" "norm (A ! 1 ! 0) = 1"
    by simp_all
  ultimately show ?thesis using A(1,2) by simp
qed

text \<open>
  C8.  On angle arrays of equal length, the angular variant is the direction-cosine
  variant at \<open>l = sin \<theta> * cos \<phi>\<close>, \<open>m = sin \<theta> * sin \<phi>\<close>, steered to the cosines of
  \<open>(theta0, phi0)\<close>.
\<close>

theorem array_factor_tp_refines_lm:
  assumes "length theta = length phi"
  shows "array_factor_tp theta phi theta0 phi0 positions =
         array_factor_lm (map2 (\<lambda>t p. sin t * cos p) theta phi)
                         (map2 (\<lambda>t p. sin t * sin p) theta phi)
                         (sin theta0 * cos phi0) (sin theta0 * sin phi0) positions"
  using assms
  by (simp add: array_factor_tp_def array_factor_lm_def ang2vec_def np_stack_def
      first_two_T_def comp_def split_def)


theorem array_factor_tp_refines_lm_witness:
  "length [pi / 2, 0 :: real] = length [0, 0 :: real] \<and>
   array_factor_tp [pi / 2, 0] [0, 0] 0 0 [(1 / 2, 0), (0, 0)] = Inr [0, 2] \<and>
   array_factor_lm [1, 0] [0, 0] 0 0 [(1 / 2, 0), (0, 0)] = Inr [0, 2]"
proof -
  have h: "length [pi / 2, 0 :: real] = length [0, 0 :: real]" by simp
  have lm: "array_factor_lm [1, 0] [0, 0] 0 0 [(1 / 2, 0), (0, 0)] = Inr [0, 2]"
    by (simp add: array_factor_lm_eq af_entry_def)
  from array_factor_tp_refines_lm[OF h, of 0 0 "[(1 / 2, 0), (0, 0)]"] lm
  show ?thesis by simp
qed

text \<open>
  C9.  Every value the direction-cosine and the angular variant return has modulus
  at most \<open>J\<close>, the number of element positions.
\<close>

theorem array_factor_bounded:
  "(array_factor_lm l m l0 m0 positions = Inr a \<longrightarrow>
      (\<forall>z \<in> set a. norm z \<le> real (length positions))) \<and>
   (array_factor_tp theta phi theta0 phi0 positions = Inr a' \<longrightarrow>
      (\<forall>z \<in> set a'. norm z \<le> real (length positions)))"
proof (intro conjI impI)
  have bound: "\<forall>z \<in> set b. norm z \<le> real (length positions)"
    if "array_factor_lm u v u0 v0 positions = Inr b" for u v u0 v0 b
  proof (cases "length u = length v")
    case True
    from that array_factor_lm_eq[OF True, of u0 v0 positions]
    have "b = map2 (\<lambda>a b. af_entry positions (a - u0) (b - v0)) u v" by simp
    then show ?thesis by (auto simp: norm_af_entry)
  next
    case False
    with that show ?thesis by (simp add: array_factor_lm_def np_stack_def)
  qed
  {
    assume "array_factor_lm l m l0 m0 positions = Inr a"
    then show "\<forall>z \<in> set a. norm z \<le> real (length positions)" by (rule bound)
  }
  {
    assume tp: "array_factor_tp theta phi theta0 phi0 positions = Inr a'"
    show "\<forall>z \<in> set a'. norm z \<le> real (length positions)"
    proof (cases "length theta = length phi")
      case True
      from tp show ?thesis unfolding array_factor_tp_lm[OF True] by (rule bound)
    next
      case False
      with tp show ?thesis by (simp add: array_factor_tp_def ang2vec_def)
    qed
  }
qed


theorem array_factor_bounded_witness:
  "array_factor_lm [1, 0] [0, 0] 0 0 [(1 / 2, 0), (0, 0)] = Inr [0, 2] \<and>
   array_factor_tp [pi / 2, 0] [0, 0] 0 0 [(1 / 2, 0), (0, 0)] = Inr [0, 2] \<and>
   norm (0 :: complex) \<le> real (length [(1 / 2 :: real, 0 :: real), (0, 0)]) \<and>
   norm (2 :: complex) \<le> real (length [(1 / 2 :: real, 0 :: real), (0, 0)])"
proof -
  have lm: "array_factor_lm [1, 0] [0, 0] 0 0 [(1 / 2, 0), (0, 0)] = Inr [0, 2]"
    by (simp add: array_factor_lm_eq af_entry_def)
  have tp: "array_factor_tp [pi / 2, 0] [0, 0] 0 0 [(1 / 2, 0), (0, 0)] = Inr [0, 2]"
    by (simp add: array_factor_tp_lm array_factor_lm_eq af_entry_def)
  from array_factor_bounded[of "[1, 0]" "[0, 0]" 0 0 "[(1 / 2, 0), (0, 0)]" "[0, 2]"
      "[pi / 2, 0]" "[0, 0]" 0 0 "[0, 2]"] lm tp
  have "\<forall>z \<in> set [0, 2 :: complex]. norm z \<le> real (length [(1 / 2 :: real, 0 :: real), (0, 0)])"
    by blast
  with lm tp show ?thesis by simp
qed

section \<open>The batched variant\<close>

lemma length_np_tile: "length (np_tile xs K) = K * length xs"
  by (induction K) (simp_all add: np_tile_def)

lemma length_np_repeat: "length (np_repeat ys P) = length ys * P"
  by (induction ys) (simp_all add: np_repeat_def)

lemma nth_np_tile: "p < length xs \<Longrightarrow> i < K \<Longrightarrow> np_tile xs K ! (i * length xs + p) = xs ! p"
proof (induction K arbitrary: i)
  case 0
  then show ?case by simp
next
  case (Suc K)
  have t: "np_tile xs (Suc K) = xs @ np_tile xs K" by (simp add: np_tile_def)
  show ?case
  proof (cases i)
    case 0
    with Suc.prems show ?thesis by (simp add: t nth_append)
  next
    case (Suc i')
    with Suc.prems have "i' < K" by simp
    from Suc.IH[OF Suc.prems(1) this] show ?thesis
      by (simp add: t Suc nth_append add.assoc)
  qed
qed

lemma nth_np_repeat: "p < P \<Longrightarrow> i < length ys \<Longrightarrow> np_repeat ys P ! (i * P + p) = ys ! i"
proof (induction ys arbitrary: i)
  case Nil
  then show ?case by simp
next
  case (Cons y ys)
  have t: "np_repeat (y # ys) P = replicate P y @ np_repeat ys P" by (simp add: np_repeat_def)
  show ?case
  proof (cases i)
    case 0
    with Cons.prems show ?thesis by (simp add: t nth_append)
  next
    case (Suc i')
    with Cons.prems have "i' < length ys" by simp
    from Cons.IH[OF Cons.prems(1) this] show ?thesis
      by (simp add: t Suc nth_append add.assoc)
  qed
qed


lemma flat_index_less: "i < K \<Longrightarrow> p < P \<Longrightarrow> i * P + p < K * (P::nat)"
proof -
  assume i: "i < K" and p: "p < P"
  have "i * P + p < i * P + P" using p by simp
  also have "\<dots> = Suc i * P" by simp
  also have "\<dots> \<le> K * P" using i by (intro mult_le_mono1) simp
  finally show ?thesis .
qed

lemma phase_sum_tiled:
  assumes "length sx = P" "length sy = P" "length s0x = K" "length s0y = K"
  shows "\<exists>A. phase_sum positions (np_tile sx K, np_tile sy K) (np_repeat s0x P, np_repeat s0y P) = Inr A
      \<and> length A = K * P
      \<and> (\<forall>i < K. \<forall>p < P. A ! (i * P + p) = af_entry positions (sx ! p - s0x ! i) (sy ! p - s0y ! i))"
proof -
  let ?u = "map2 (-) (np_tile sx K) (np_repeat s0x P)"
  let ?v = "map2 (-) (np_tile sy K) (np_repeat s0y P)"
  let ?A = "map2 (af_entry positions) ?u ?v"
  have lens: "length (np_tile sx K) = K * P" "length (np_tile sy K) = K * P"
    "length (np_repeat s0x P) = K * P" "length (np_repeat s0y P) = K * P"
    using assms by (simp_all add: length_np_tile length_np_repeat)
  have sub: "sub2 (np_tile sx K, np_tile sy K) (np_repeat s0x P, np_repeat s0y P) = Inr (?u, ?v)"
    using lens by (simp add: sub2_def broadcast2_def)
  have luv: "length ?u = length ?v" using lens by simp
  have ps: "phase_sum positions (np_tile sx K, np_tile sy K) (np_repeat s0x P, np_repeat s0y P) = Inr ?A"
    by (rule phase_sum_eq[OF sub luv])
  have lenA: "length ?A = K * P" using lens by simp
  have entries: "?A ! (i * P + p) = af_entry positions (sx ! p - s0x ! i) (sy ! p - s0y ! i)"
    if "i < K" "p < P" for i p
  proof -
    have q: "i * P + p < K * P" using that by (rule flat_index_less)
    have tx: "np_tile sx K ! (i * P + p) = sx ! p"
      using nth_np_tile[of p sx i K] that assms by simp
    have ty: "np_tile sy K ! (i * P + p) = sy ! p"
      using nth_np_tile[of p sy i K] that assms by simp
    have rx: "np_repeat s0x P ! (i * P + p) = s0x ! i"
      using nth_np_repeat[of p P i s0x] that assms by simp
    have ry: "np_repeat s0y P ! (i * P + p) = s0y ! i"
      using nth_np_repeat[of p P i s0y] that assms by simp
    show ?thesis using q lens by (simp add: tx ty rx ry)
  qed
  from ps lenA entries show ?thesis by blast
qed

lemma reshape2_row:
  assumes "length A = K * P" "i < K"
  shows "\<exists>M. reshape2 K P A = Inr M \<and> length M = K \<and> length (M ! i) = P
      \<and> (\<forall>p < P. M ! i ! p = A ! (i * P + p))"
proof -
  have "i * P + P = Suc i * P" by simp
  also have "\<dots> \<le> K * P" using assms(2) by (intro mult_le_mono1) simp
  finally have le: "i * P + P \<le> length A" using assms(1) by simp
  then have "P \<le> length A - i * P" by linarith
  then have "min (length A - i * P) P = P" by simp
  then show ?thesis using assms by (simp add: reshape2_def)
qed

text \<open>
  C2.  Row \<open>i\<close> of the batched result is the single-steer result for scan pixel
  \<open>scan_pixels[i]\<close>; with one scan pixel the batched result is that single row.
  In exact arithmetic the rows are equal, not only close.
\<close>

theorem hpmatrix_rows:
  "(i < length scan_pixels \<longrightarrow>
      (\<exists>A a. array_factor_hpmatrix p2v nside source_pixels scan_pixels positions = Inr A
          \<and> length A = length scan_pixels
          \<and> array_factor_hp p2v nside source_pixels [scan_pixels ! i] positions = Inr a
          \<and> A ! i = a))
   \<and> (\<exists>a. array_factor_hp p2v nside source_pixels [q] positions = Inr a
          \<and> array_factor_hpmatrix p2v nside source_pixels [q] positions = Inr [a])"
proof -
  have row: "\<exists>A a. array_factor_hpmatrix p2v nside source_pixels scan positions = Inr A
          \<and> length A = length scan
          \<and> array_factor_hp p2v nside source_pixels [scan ! k] positions = Inr a
          \<and> A ! k = a" if k: "k < length scan" for scan k
  proof -
    let ?P = "length source_pixels" and ?K = "length scan"
    let ?sx = "map (\<lambda>q. fst (p2v nside q)) source_pixels"
    let ?sy = "map (\<lambda>q. fst (snd (p2v nside q))) source_pixels"
    let ?s0x = "map (\<lambda>q. fst (p2v nside q)) scan"
    let ?s0y = "map (\<lambda>q. fst (snd (p2v nside q))) scan"
    from phase_sum_tiled[of ?sx ?P ?sy ?s0x ?K ?s0y positions]
    obtain F where F: "phase_sum positions (np_tile ?sx ?K, np_tile ?sy ?K)
          (np_repeat ?s0x ?P, np_repeat ?s0y ?P) = Inr F"
        "length F = ?K * ?P"
        "\<forall>i < ?K. \<forall>p < ?P. F ! (i * ?P + p)
            = af_entry positions (?sx ! p - ?s0x ! i) (?sy ! p - ?s0y ! i)"
      by auto
    from reshape2_row[OF F(2) k]
    obtain M where M: "reshape2 ?K ?P F = Inr M" "length M = ?K" "length (M ! k) = ?P"
        "\<forall>p < ?P. M ! k ! p = F ! (k * ?P + p)"
      by auto
    have hpm: "array_factor_hpmatrix p2v nside source_pixels scan positions = Inr M"
      using F(1) M(1) by (simp add: array_factor_hpmatrix_def pix2vec_def np_stack_def)
    let ?a = "map2 (\<lambda>a b. af_entry positions (a - ?s0x ! k) (b - ?s0y ! k)) ?sx ?sy"
    have "phase_sum positions (?sx, ?sy) ([?s0x ! k], [?s0y ! k]) = Inr ?a"
      by (rule phase_sum_single) simp
    then have hp: "array_factor_hp p2v nside source_pixels [scan ! k] positions = Inr ?a"
      using k by (simp add: array_factor_hp_def pix2vec_def np_stack_def)
    have "M ! k = ?a"
    proof (rule nth_equalityI)
      show "length (M ! k) = length ?a" using M(3) by simp
    next
      fix p assume "p < length (M ! k)"
      then have p: "p < ?P" using M(3) by simp
      then show "M ! k ! p = ?a ! p" using M(4) F(3) k by simp
    qed
    with hpm hp M(2) show ?thesis by blast
  qed
  have one: "\<exists>a. array_factor_hp p2v nside source_pixels [q] positions = Inr a
          \<and> array_factor_hpmatrix p2v nside source_pixels [q] positions = Inr [a]"
  proof -
    from row[of 0 "[q]"] obtain A a where
      A: "array_factor_hpmatrix p2v nside source_pixels [q] positions = Inr A"
        "length A = 1" "array_factor_hp p2v nside source_pixels [q] positions = Inr a" "A ! 0 = a"
      by auto
    from A(2,4) have "A = [a]" by (cases A) auto
    with A(1,3) show ?thesis by simp
  qed
  from row one show ?thesis by blast
qed


theorem hpmatrix_rows_witness:
  "(0 :: nat) < length [0, 1 :: int] \<and>
   (\<exists>A. array_factor_hpmatrix (\<lambda>n q. (real_of_int q / 2, 0, 1)) 1 [0, 1] [0, 1] [(1, 0)] = Inr A
      \<and> length A = 2 \<and> A ! 0 = [1, - 1]
      \<and> array_factor_hp (\<lambda>n q. (real_of_int q / 2, 0, 1)) 1 [0, 1] [[0, 1] ! 0] [(1, 0)]
          = Inr [1, - 1])"
proof -
  have hp: "array_factor_hp (\<lambda>n q. (real_of_int q / 2, 0, 1)) 1 [0, 1] [[0, 1] ! 0] [(1, 0)]
      = Inr [1, - 1]"
    by (simp add: array_factor_hp_def pix2vec_def np_stack_def phase_sum_single af_entry_def)
  from hpmatrix_rows[of 0 "[0, 1]" "\<lambda>n q. (real_of_int q / 2, 0, 1)" 1 "[0, 1]" "[(1, 0)]" 0]
  obtain A a where A:
    "array_factor_hpmatrix (\<lambda>n q. (real_of_int q / 2, 0, 1)) 1 [0, 1] [0, 1] [(1, 0)] = Inr A"
    "length A = length [0, 1 :: int]"
    "array_factor_hp (\<lambda>n q. (real_of_int q / 2, 0, 1)) 1 [0, 1] [[0, 1] ! 0] [(1, 0)] = Inr a"
    "A ! 0 = a"
    by auto
  from A(3) hp have "a = [1, - 1]" by simp
  with A hp show ?thesis by simp
qed

section \<open>The lattices\<close>

lemma zip_replicate_const: "zip (map f xs) (replicate (length xs) c) = map (\<lambda>x. (f x, c)) xs"
  by (induction xs) simp_all

lemma zip_tile_repeat:
  "zip (map f (concat (replicate (length js) xs))) (map g (concat (map (replicate (length xs)) js)))
   = concat (map (\<lambda>j. map (\<lambda>x. (f x, g j)) xs) js)"
proof (induction js)
  case Nil
  show ?case by simp
next
  case (Cons j js)
  have "zip (map f xs @ map f (concat (replicate (length js) xs)))
            (replicate (length xs) (g j) @ map g (concat (map (replicate (length xs)) js)))
      = zip (map f xs) (replicate (length xs) (g j))
        @ zip (map f (concat (replicate (length js) xs))) (map g (concat (map (replicate (length xs)) js)))"
    by (rule zip_append) simp
  then show ?case using Cons.IH by (simp add: zip_replicate_const)
qed

lemma upa_is_rectangular: "upa_positions Nx Ny dx dy = rectangular_lattice Nx Ny dx dy"
  using zip_tile_repeat[of "\<lambda>x. x * dx" "map real [0..<Ny]" "map real [0..<Nx]" "\<lambda>y. y * dy"]
  by (simp add: upa_positions_def rectangular_lattice_def np_tile_def np_repeat_def
      np_arange_def comp_def)

lemma length_concat_uniform:
  "(\<And>j. j \<in> set js \<Longrightarrow> length (h j) = n) \<Longrightarrow> length (concat (map h js)) = length js * n"
  by (induction js) simp_all

lemma nth_concat_uniform:
  assumes "\<And>j. j \<in> set js \<Longrightarrow> length (h j) = n" "k < length js" "i < n"
  shows "concat (map h js) ! (k * n + i) = h (js ! k) ! i"
  using assms
proof (induction js arbitrary: k)
  case Nil
  then show ?case by simp
next
  case (Cons j js)
  have lj: "length (h j) = n" using Cons.prems(1) by simp
  show ?case
  proof (cases k)
    case 0
    with Cons.prems lj show ?thesis by (simp add: nth_append)
  next
    case (Suc k')
    with Cons.prems have "k' < length js" by simp
    with Cons.IH[of k'] Cons.prems have "concat (map h js) ! (k' * n + i) = h (js ! k') ! i" by simp
    then show ?thesis using lj by (simp add: Suc nth_append add.assoc)
  qed
qed

lemma length_rectangular: "length (rectangular_lattice nx ny dx dy) = nx * ny"
  unfolding rectangular_lattice_def
  by (subst length_concat_uniform[where n = nx]) simp_all

lemma nth_rectangular:
  assumes "i < nx" "j < ny"
  shows "rectangular_lattice nx ny dx dy ! (j * nx + i) = (real i * dx, real j * dy)"
proof -
  have "concat (map (\<lambda>j. map (\<lambda>i. (real i * dx, real j * dy)) [0..<nx]) [0..<ny]) ! (j * nx + i)
      = map (\<lambda>i. (real i * dx, real ([0..<ny] ! j) * dy)) [0..<nx] ! i"
    by (rule nth_concat_uniform) (use assms in simp_all)
  then show ?thesis using assms by (simp add: rectangular_lattice_def)
qed

lemma sqrt3_bounds: "3 / 2 < sqrt 3" "sqrt 3 < 2"
proof -
  have "sqrt ((3 / 2)\<^sup>2) < sqrt 3" by (subst real_sqrt_less_iff) (simp add: power2_eq_square)
  then show "3 / 2 < sqrt 3" by simp
  have "sqrt 3 < sqrt (2\<^sup>2)" by (subst real_sqrt_less_iff) simp
  then show "sqrt 3 < 2" by simp
qed

lemma no_half_tie:
  fixes n :: nat and f :: int
  shows "real n / sqrt 3 - of_int f \<noteq> 1 / 2"
proof
  assume "real n / sqrt 3 - of_int f = 1 / 2"
  then have "real n / sqrt 3 = (2 * of_int f + 1) / 2" by (simp add: field_simps)
  then have "2 * real n = (2 * of_int f + 1) * sqrt 3" by (simp add: field_simps)
  then have "(2 * real n)\<^sup>2 = ((2 * of_int f + 1) * sqrt 3)\<^sup>2" by simp
  then have "4 * (real n)\<^sup>2 = 3 * (2 * of_int f + 1)\<^sup>2" by (simp add: power_mult_distrib)
  then have "real_of_int (4 * (int n)\<^sup>2) = real_of_int (3 * (2 * f + 1)\<^sup>2)" by simp
  then have eq: "4 * (int n)\<^sup>2 = 3 * (2 * f + 1)\<^sup>2" by (simp only: of_int_eq_iff)
  have "even (4 * (int n)\<^sup>2)" by simp
  moreover have "odd (3 * (2 * f + 1)\<^sup>2)" by simp
  ultimately show False using eq by simp
qed

lemma np_round_is_round: "np_round (real n / sqrt 3) = round (real n / sqrt 3)"
proof -
  define x where "x = real n / sqrt 3"
  define f where "f = \<lfloor>x\<rfloor>"
  have tie: "x - of_int f \<noteq> 1 / 2" unfolding x_def by (rule no_half_tie)
  have fl: "of_int f \<le> x" "x < of_int f + 1" unfolding f_def by linarith+
  have "np_round x = round x"
  proof (cases "x - of_int f < 1 / 2")
    case True
    have "\<lfloor>x + 1 / 2\<rfloor> = f"
    proof (rule floor_unique)
      show "of_int f \<le> x + 1 / 2" using fl by linarith
      show "x + 1 / 2 < of_int f + 1" using True by linarith
    qed
    with True show ?thesis by (simp add: np_round_def round_def Let_def f_def)
  next
    case False
    with tie have gt: "1 / 2 < x - of_int f" by simp
    have "\<lfloor>x + 1 / 2\<rfloor> = f + 1"
    proof (rule floor_unique)
      show "of_int (f + 1) \<le> x + 1 / 2" using gt by simp
      show "x + 1 / 2 < of_int (f + 1) + 1" using fl by simp
    qed
    with False gt show ?thesis by (simp add: np_round_def round_def Let_def f_def)
  qed
  then show ?thesis by (simp add: x_def)
qed

lemma hex_ny_pos:
  assumes "1 \<le> Nx"
  shows "1 \<le> np_round (real Nx / sqrt 3)"
proof -
  have "1 / 2 < 1 / sqrt 3" using sqrt3_bounds by (simp add: field_simps)
  also have "\<dots> \<le> real Nx / sqrt 3" using assms by (simp add: field_simps)
  finally have "1 / 2 < real Nx / sqrt 3" .
  then have "1 \<le> real Nx / sqrt 3 + 1 / 2" by linarith
  then have "1 \<le> round (real Nx / sqrt 3)" unfolding round_def by linarith
  then show ?thesis by (simp add: np_round_is_round)
qed


text \<open>
  C5.  For \<open>Nx \<ge> 1\<close> the hexagonal lattice is the rectangular lattice
  \<open>(Nx, ny, dx, dy)\<close> followed by the rectangular lattice \<open>(Nx - 1, ny - 1, dx, dy)\<close>
  shifted by \<open>(dx / 2, dy / 2)\<close>, with \<open>dy = dx * sqrt 3\<close> and \<open>ny\<close> the rounding of
  \<open>Nx / sqrt 3\<close> (no tie occurs, so the rounding mode does not matter); it has
  \<open>Nx * ny + (Nx - 1) * (ny - 1)\<close> elements.  The rectangular lattice places
  \<open>(i * dx, j * dy)\<close> at index \<open>j * nx + i\<close>: \<open>x\<close> varies fastest.
\<close>

theorem hex_positions_sublattices:
  assumes "1 \<le> Nx"
  shows "\<exists>ny ps. int ny = np_round (real Nx / sqrt 3) \<and> int ny = round (real Nx / sqrt 3)
      \<and> 1 \<le> ny
      \<and> hex_positions Nx dx = Some ps
      \<and> ps = upa_positions Nx ny dx (dx * sqrt 3)
             @ map (\<lambda>(x, y). (x + dx / 2, y + dx * sqrt 3 / 2))
                 (upa_positions (Nx - 1) (ny - 1) dx (dx * sqrt 3))
      \<and> length ps = Nx * ny + (Nx - 1) * (ny - 1)
      \<and> (\<forall>nx' ny' dy. upa_positions nx' ny' dx dy = rectangular_lattice nx' ny' dx dy
            \<and> length (upa_positions nx' ny' dx dy) = nx' * ny'
            \<and> (\<forall>i < nx'. \<forall>j < ny'.
                  upa_positions nx' ny' dx dy ! (j * nx' + i) = (real i * dx, real j * dy)))"
proof -
  define Ny where "Ny = np_round (real Nx / sqrt 3)"
  define ny where "ny = nat Ny"
  have pos: "1 \<le> Ny" unfolding Ny_def using assms by (rule hex_ny_pos)
  then have ny: "int ny = Ny" "1 \<le> ny" "nat (Ny - 1) = ny - 1" by (simp_all add: ny_def)
  let ?ps = "upa_positions Nx ny dx (dx * sqrt 3)
             @ map (\<lambda>(x, y). (x + dx / 2, y + dx * sqrt 3 / 2))
                 (upa_positions (Nx - 1) (ny - 1) dx (dx * sqrt 3))"
  have hex: "hex_positions Nx dx = Some ?ps"
    using assms ny(3) by (simp add: hex_positions_def Let_def Ny_def[symmetric] ny_def[symmetric])
  have len: "length ?ps = Nx * ny + (Nx - 1) * (ny - 1)"
    by (simp add: upa_is_rectangular length_rectangular)
  have upa: "upa_positions nx' ny' dx dy = rectangular_lattice nx' ny' dx dy
            \<and> length (upa_positions nx' ny' dx dy) = nx' * ny'
            \<and> (\<forall>i < nx'. \<forall>j < ny'.
                  upa_positions nx' ny' dx dy ! (j * nx' + i) = (real i * dx, real j * dy))"
    for nx' ny' dy
    by (simp add: upa_is_rectangular length_rectangular nth_rectangular)
  have "int ny = round (real Nx / sqrt 3)" using ny(1) by (simp add: Ny_def np_round_is_round)
  with ny(1,2) hex len upa show ?thesis unfolding Ny_def by blast
qed

lemma round_sqrt3: "round (3 / sqrt 3) = 2"
proof -
  have "3 / sqrt 3 = sqrt 3" by (simp add: real_div_sqrt)
  moreover have "\<lfloor>sqrt 3 + 1 / 2\<rfloor> = 2"
    by (rule floor_unique) (use sqrt3_bounds in simp_all)
  ultimately show ?thesis by (simp add: round_def)
qed

theorem hex_positions_sublattices_witness:
  "(1 :: nat) \<le> 3 \<and>
   hex_positions 3 1 = Some [(0, 0), (1, 0), (2, 0), (0, sqrt 3), (1, sqrt 3), (2, sqrt 3),
                             (1 / 2, sqrt 3 / 2), (3 / 2, sqrt 3 / 2)] \<and>
   length [(0, 0), (1, 0), (2, 0), (0, sqrt 3), (1, sqrt 3), (2, sqrt 3),
           (1 / 2, sqrt 3 / 2), (3 / 2, sqrt 3 / 2)] = 3 * 2 + (3 - 1) * (2 - 1 :: nat)"
proof -
  have h: "(1 :: nat) \<le> 3" by simp
  from hex_positions_sublattices[OF h, of 1]
  obtain ny ps where w: "int ny = round (real 3 / sqrt 3)" "hex_positions 3 1 = Some ps"
    "ps = upa_positions 3 ny 1 (1 * sqrt 3)
             @ map (\<lambda>(x, y). (x + 1 / 2, y + 1 * sqrt 3 / 2))
                 (upa_positions (3 - 1) (ny - 1) 1 (1 * sqrt 3))"
    by blast
  from w(1) have ny: "ny = 2" by (simp add: round_sqrt3)
  have "ps = [(0, 0), (1, 0), (2, 0), (0, sqrt 3), (1, sqrt 3), (2, sqrt 3),
              (1 / 2, sqrt 3 / 2), (3 / 2, sqrt 3 / 2)]"
    unfolding w(3) ny
    by (simp add: upa_is_rectangular rectangular_lattice_def numeral_2_eq_2 numeral_3_eq_3 upt_conv_Cons)
  with w(2) show ?thesis by simp
qed

section \<open>The numerical directivity\<close>

lemma mul_rows_matching:
  "(\<And>row. row \<in> set PP \<Longrightarrow> length row = length v)
   \<Longrightarrow> mul_rows PP v = Inr (map (\<lambda>row. map2 (*) row v) PP)"
  by (induction PP) (simp_all add: broadcast2_def)

lemma np_max_eq: "concat M \<noteq> [] \<Longrightarrow> np_max M = Inr (Max (set (concat M)))"
  by (cases "concat M") (simp_all add: np_max_def Max.set_eq_fold[symmetric])



lemma radiated_power_value:
  assumes "2 \<le> length theta" "2 \<le> length phi" "\<And>row. row \<in> set PP \<Longrightarrow> length row = length theta"
  shows "radiated_power PP theta phi =
     Inr (sum_list (map (\<lambda>row. sum_list (map2 (\<lambda>x t. x * sin t) row theta) * (theta ! 1 - theta ! 0)) PP)
          * (phi ! 1 - phi ! 0))"
proof -
  have "mul_rows PP (map sin theta) = Inr (map (\<lambda>row. map2 (*) row (map sin theta)) PP)"
    by (rule mul_rows_matching) (simp add: assms(3))
  moreover have "map2 (*) row (map sin theta) = map2 (\<lambda>x t. x * sin t) row theta" for row :: "real list"
    by (simp add: zip_map2 split_def comp_def)
  ultimately show ?thesis using assms(1,2)
    by (simp add: radiated_power_def Let_def comp_def)
qed

text \<open>
  C6.  For a pattern with at least one row, each row as long as \<open>theta\<close>, and
  coordinate vectors of at least two samples, the numerical directivity is
  \<open>4 * pi * max PowerPattern\<close> divided by the radiated power: the sum over the rows of
  (the sum over \<open>theta\<close> of \<open>PowerPattern * sin theta\<close>) times \<open>theta[1] - theta[0]\<close>,
  times \<open>phi[1] - phi[0]\<close>.  Only the first two samples of \<open>phi\<close> matter: any other
  tail gives the same result.  A zero radiated power gives the non-finite result.
\<close>

theorem numerical_directivity_formula:
  assumes "2 \<le> length theta" "2 \<le> length phi" "PowerPattern \<noteq> []"
    and "\<forall>row \<in> set PowerPattern. length row = length theta"
  shows "numerical_directivity PowerPattern theta phi =
     Inr (np_divide (4 * pi * Max (set (concat PowerPattern)))
           (sum_list (map (\<lambda>row. sum_list (map2 (\<lambda>x t. x * sin t) row theta) * (theta ! 1 - theta ! 0))
                       PowerPattern)
            * (phi ! 1 - phi ! 0)))
   \<and> numerical_directivity PowerPattern theta phi
       = numerical_directivity PowerPattern theta (phi ! 0 # phi ! 1 # other)"
proof -
  from assms(3) obtain r rs where PP: "PowerPattern = r # rs" by (cases PowerPattern) auto
  with assms(1,4) have "r \<noteq> []" by auto
  with PP have ne: "concat PowerPattern \<noteq> []" by simp
  have rows: "\<And>row. row \<in> set PowerPattern \<Longrightarrow> length row = length theta"
    using assms(4) by simp
  have rp: "radiated_power PowerPattern theta ph =
     Inr (sum_list (map (\<lambda>row. sum_list (map2 (\<lambda>x t. x * sin t) row theta) * (theta ! 1 - theta ! 0))
                       PowerPattern) * (ph ! 1 - ph ! 0))" if "2 \<le> length ph" for ph
    using assms(1) that rows by (rule radiated_power_value)
  have nd: "numerical_directivity PowerPattern theta ph =
     Inr (np_divide (4 * pi * Max (set (concat PowerPattern)))
           (sum_list (map (\<lambda>row. sum_list (map2 (\<lambda>x t. x * sin t) row theta) * (theta ! 1 - theta ! 0))
                       PowerPattern) * (ph ! 1 - ph ! 0)))" if "2 \<le> length ph" for ph
    by (simp add: numerical_directivity_def np_max_eq[OF ne] rp[OF that] Let_def)
  have "numerical_directivity PowerPattern theta (phi ! 0 # phi ! 1 # other)
      = numerical_directivity PowerPattern theta phi"
    using nd[of "phi ! 0 # phi ! 1 # other"] nd[OF assms(2)] by simp
  with nd[OF assms(2)] show ?thesis by simp
qed

theorem numerical_directivity_formula_witness:
  "2 \<le> length [0, pi / 2] \<and> 2 \<le> length [0, 1 :: real] \<and> [[1, 1], [1, 1 :: real]] \<noteq> [] \<and>
   numerical_directivity [[1, 1], [1, 1]] [0, pi / 2] [0, 1] = Inr (Some 4) \<and>
   numerical_directivity [[1, 1], [1, 1]] [0, pi / 2] [0, 1, 7] = Inr (Some 4)"
proof -
  have h: "2 \<le> length [0, pi / 2]" "2 \<le> length [0, 1 :: real]" "[[1, 1], [1, 1 :: real]] \<noteq> []"
    "\<forall>row \<in> set [[1, 1], [1, 1 :: real]]. length row = length [0, pi / 2]"
    by simp_all
  note t = numerical_directivity_formula[OF h, of "[7]"]
  have v: "numerical_directivity [[1, 1], [1, 1]] [0, pi / 2] [0, 1] = Inr (Some 4)"
    using t[THEN conjunct1] by (simp add: np_divide_def)
  have e: "numerical_directivity [[1, 1], [1, 1]] [0, pi / 2] [0, 1]
          = numerical_directivity [[1, 1], [1, 1]] [0, pi / 2] [0, 1, 7]"
    using t[THEN conjunct2] by simp
  from v e have "numerical_directivity [[1, 1], [1, 1]] [0, pi / 2] [0, 1, 7] = Inr (Some 4)"
    by simp
  with v show ?thesis by simp
qed






section \<open>The analytical directivity\<close>

lemma tab_cong: "(\<And>r c. r < N \<Longrightarrow> c < N \<Longrightarrow> f r c = g r c) \<Longrightarrow> tab N f = tab N g"
  by (simp add: tab_def)

lemma map2_same: "map2 h (map f xs) (map g xs) = map (\<lambda>x. h (f x) (g x)) xs"
  by (induction xs) simp_all

lemma map2_tab: "map2 (map2 h) (tab N f) (tab N g) = tab N (\<lambda>r c. h (f r c) (g r c))"
  by (simp add: tab_def map2_same)

lemma mat_add_tab: "mat_add (tab N f) (tab N g) = tab N (\<lambda>r c. f r c + g r c)"
  by (simp add: mat_add_def map2_tab)

lemma np_zeros_tab: "np_zeros N = tab N (\<lambda>r c. 0)"
  by (simp add: np_zeros_def tab_def map_replicate_const)

lemma np_diag_upper:
  assumes "i \<le> N"
  shows "np_diag (replicate (N - i) (- real i)) (int i)
       = tab N (\<lambda>r c. if c = r + i then - real i else 0)"
proof -
  have n: "N - i + i = N" using assms by simp
  show ?thesis
    unfolding np_diag_def tab_def Let_def
    by (simp add: n)
qed


lemma np_diag_lower:
  assumes "i \<le> N"
  shows "np_diag (replicate (N - i) (real i)) (- int i)
       = tab N (\<lambda>r c. if r = c + i then real i else 0)"
proof -
  have n: "N - i + i = N" using assms by simp
  show ?thesis
    unfolding np_diag_def tab_def Let_def
    by (auto simp: n)
qed

lemma diff_step_tab:
  assumes "i \<le> N"
  shows "diff_step N i (tab N f)
     = tab N (\<lambda>r c. f r c + (if c = r + i then - real i else 0) + (if r = c + i then real i else 0))"
  by (simp add: diff_step_def Let_def np_diag_upper[OF assms] np_diag_lower[OF assms] mat_add_tab)

lemma diff_fold:
  assumes "k \<le> N"
  shows "fold (diff_step N) [1..<Suc k] (np_zeros N)
       = tab N (\<lambda>r c. if r < c + Suc k \<and> c < r + Suc k then real r - real c else 0)"
  using assms
proof (induction k)
  case 0
  show ?case by (simp add: np_zeros_tab) (rule tab_cong, auto)
next
  case (Suc k)
  then have k: "k \<le> N" and sk: "Suc k \<le> N" by simp_all
  have "fold (diff_step N) [1..<Suc (Suc k)] (np_zeros N)
      = diff_step N (Suc k) (fold (diff_step N) [1..<Suc k] (np_zeros N))"
    by simp
  also have "\<dots> = diff_step N (Suc k)
        (tab N (\<lambda>r c. if r < c + Suc k \<and> c < r + Suc k then real r - real c else 0))"
    by (simp only: Suc.IH[OF k])
  also have "\<dots> = tab N (\<lambda>r c. (if r < c + Suc k \<and> c < r + Suc k then real r - real c else 0)
        + (if c = r + Suc k then - real (Suc k) else 0) + (if r = c + Suc k then real (Suc k) else 0))"
    by (rule diff_step_tab[OF sk])
  also have "\<dots> = tab N (\<lambda>r c. if r < c + Suc (Suc k) \<and> c < r + Suc (Suc k) then real r - real c else 0)"
    by (rule tab_cong) auto
  finally show ?case .
qed

lemma diff_matrix_tab: "diff_matrix N = tab N (\<lambda>r c. real r - real c)"
proof (cases N)
  case 0
  then show ?thesis by (simp add: diff_matrix_def np_zeros_def tab_def)
next
  case (Suc n)
  have "fold (diff_step N) [1..<Suc n] (np_zeros N)
       = tab N (\<lambda>r c. if r < c + Suc n \<and> c < r + Suc n then real r - real c else 0)"
    by (rule diff_fold) (simp add: Suc)
  also have "\<dots> = tab N (\<lambda>r c. real r - real c)"
    by (rule tab_cong) (simp add: Suc)
  finally show ?thesis by (simp add: diff_matrix_def Suc)
qed


lemma length_np_kron: "length (np_kron a a) = length a * length a"
  unfolding np_kron_def by (rule length_concat_uniform) simp

lemma kron_row:
  assumes "i < length a"
  shows "take (length a) (drop (i * length a) (np_kron a a)) = map (\<lambda>j. a ! i * a ! j) [0..<length a]"
proof (rule nth_equalityI)
  have "i * length a + length a = Suc i * length a" by simp
  also have "\<dots> \<le> length a * length a" using assms by (intro mult_le_mono1) simp
  finally have "length a \<le> length (np_kron a a) - i * length a"
    by (simp add: length_np_kron)
  then show "length (take (length a) (drop (i * length a) (np_kron a a)))
      = length (map (\<lambda>j. a ! i * a ! j) [0..<length a])"
    by simp
next
  fix j assume "j < length (take (length a) (drop (i * length a) (np_kron a a)))"
  then have j: "j < length a" by simp
  have "concat (map (\<lambda>x. map (\<lambda>y. x * y) a) a) ! (i * length a + j)
      = map (\<lambda>y. a ! i * y) a ! j"
    by (rule nth_concat_uniform) (use assms j in simp_all)
  moreover have "i * length a \<le> length (concat (map (\<lambda>x. map (\<lambda>y. x * y) a) a))"
    using assms length_np_kron[of a] by (simp add: np_kron_def)
  ultimately show "take (length a) (drop (i * length a) (np_kron a a)) ! j
      = map (\<lambda>j. a ! i * a ! j) [0..<length a] ! j"
    using j by (simp add: np_kron_def)
qed

lemma kron_reshape: "reshape2 (length a) (length a) (np_kron a a) = Inr (tab (length a) (\<lambda>i j. a ! i * a ! j))"
  by (simp add: reshape2_def length_np_kron tab_def kron_row)

lemma sum_list_concat_rows: "sum_list (concat xss) = sum_list (map sum_list xss)"
  by (induction xss) simp_all

lemma sum_list_tab: "sum_list (concat (tab N f)) = sum_list (map (\<lambda>i. sum_list (map (\<lambda>j. f i j) [0..<N])) [0..<N])"
  by (simp add: tab_def sum_list_concat_rows comp_def)

lemma map_map_tab: "map (map h) (tab N f) = tab N (\<lambda>r c. h (f r c))"
  by (simp add: tab_def comp_def)

lemma linear_directivity_eq:
  "linear_directivity a d =
     Inr (np_divide (of_real ((sum_list (map norm a))\<^sup>2))
            (sum_list (map (\<lambda>i. sum_list (map (\<lambda>j. a ! i * a ! j *
                 of_real (np_sinc (2 * d * (real i - real j)))) [0..<length a])) [0..<length a])))"
  by (simp add: linear_directivity_def Let_def kron_reshape diff_matrix_tab map_map_tab map2_tab
      sum_list_tab)



lemma sum_norm_nonneg:
  fixes r :: "real list"
  assumes "\<And>x. x \<in> set r \<Longrightarrow> 0 \<le> x"
  shows "sum_list (map norm r) = norm (sum_list r)"
  using assms
proof (induction r)
  case Nil
  show ?case by simp
next
  case (Cons x r)
  then have x: "0 \<le> x" and r: "0 \<le> sum_list r" by (simp_all add: sum_list_nonneg)
  have IH: "sum_list (map norm r) = norm (sum_list r)"
    by (rule Cons.IH) (simp add: Cons.prems)
  have "sum_list (map norm (x # r)) = norm x + sum_list (map norm r)" by simp
  also have "\<dots> = norm x + norm (sum_list r)" by (simp only: IH)
  also have "\<dots> = norm (sum_list (x # r))" using x r by simp
  finally show ?case .
qed

text \<open>
  C1, as the code computes it.  The directivity is \<open>(\<Sigma>_i |w_i|)^2\<close>, the square of the
  sum of the moduli, divided by \<open>\<Sigma>_{i,j} w_i * w_j * sinc (2 * d * (i - j))\<close>; a zero
  denominator gives the non-finite result.  For non-negative real weights the
  numerator is \<open>|\<Sigma>_i w_i|^2\<close> and the code agrees with the spec's formula.
\<close>

theorem linear_directivity_closed_form:
  "linear_directivity a d =
     Inr (np_divide (of_real ((sum_list (map norm a))\<^sup>2))
            (sum_list (map (\<lambda>i. sum_list (map (\<lambda>j. a ! i * a ! j *
                 of_real (np_sinc (2 * d * (real i - real j)))) [0..<length a])) [0..<length a])))
   \<and> ((\<forall>x \<in> set r. 0 \<le> x) \<longrightarrow>
        linear_directivity (r :: real list) d = Inr (spec_linear_directivity r d))"
proof (intro conjI impI)
  show "linear_directivity a d =
     Inr (np_divide (of_real ((sum_list (map norm a))\<^sup>2))
            (sum_list (map (\<lambda>i. sum_list (map (\<lambda>j. a ! i * a ! j *
                 of_real (np_sinc (2 * d * (real i - real j)))) [0..<length a])) [0..<length a])))"
    by (rule linear_directivity_eq)
next
  assume "\<forall>x \<in> set r. 0 \<le> x"
  then have "sum_list (map norm r) = norm (sum_list r)" using sum_norm_nonneg[of r] by blast
  then show "linear_directivity r d = Inr (spec_linear_directivity r d)"
    by (simp only: linear_directivity_eq spec_linear_directivity_def)
qed

theorem linear_directivity_closed_form_witness:
  "0 \<le> (1 :: real) \<and> linear_directivity [1, 1 :: real] (1 / 2) = Inr (Some 2)
   \<and> spec_linear_directivity [1, 1 :: real] (1 / 2) = Some 2"
proof -
  have h: "\<forall>x \<in> set [1, 1 :: real]. 0 \<le> x" by simp
  have s: "spec_linear_directivity [1, 1 :: real] (1 / 2) = Some 2"
    by (simp add: spec_linear_directivity_def np_divide_def np_sinc_def numeral_2_eq_2 upt_conv_Cons)
  from linear_directivity_closed_form[of "[1, 1]" "1 / 2" "[1, 1]", THEN conjunct2] h
  have "linear_directivity [1, 1 :: real] (1 / 2) = Inr (spec_linear_directivity [1, 1] (1 / 2))"
    by blast
  with s show ?thesis by simp
qed

theorem linear_directivity_closed_form_counterexample:
  "linear_directivity [1, - 1 :: real] (1 / 2) = Inr (Some 2)
   \<and> spec_linear_directivity [1, - 1 :: real] (1 / 2) = Some 0
   \<and> linear_directivity [1, - 1 :: real] (1 / 2) \<noteq> Inr (spec_linear_directivity [1, - 1] (1 / 2))"
  by (simp add: linear_directivity_eq spec_linear_directivity_def np_divide_def np_sinc_def
      numeral_2_eq_2 upt_conv_Cons)







end
